theory Spec2Isabelle
  imports Complex_Main "HOL-Library.AList"
begin

unbundle bit_operations_syntax

section \<open>The cpgame scheduler and input router, as a functional model\<close>

text \<open>
  The model follows \<^verbatim>\<open>cpgame.py\<close> function by function. The module's global
  variables are the fields of one record that every function takes and returns.
  What the module does beyond its globals (calls of handlers, \<^verbatim>\<open>print\<close>,
  \<^verbatim>\<open>time.sleep\<close>) is appended to the field \<open>trace\<close>, in the order it happens.

  Conventions:
  \<^item> Times are \<open>real\<close> numbers (the source uses floats; rounding is not modelled).
  \<^item> \<^verbatim>\<open>time.monotonic()\<close> reads the field \<open>clock\<close>; \<^verbatim>\<open>time.sleep(d)\<close>
    advances it by \<open>d\<close>. Handlers may advance it too.
  \<^item> A dict is an association list in insertion order, keys distinct:
    \<^verbatim>\<open>d[k] = v\<close> is \<open>AList.update\<close> (in place for a present key, appended
    for a new one), \<^verbatim>\<open>d.pop(k, None)\<close> is \<open>AList.delete\<close>.
  \<^item> Iterating \<^verbatim>\<open>d.items()\<close> follows CPython: every step of the iterator
    first compares the dict's size with its size when the loop began and raises
    \<^verbatim>\<open>RuntimeError\<close> if they differ; otherwise it yields the item at the next
    position of the current item list. (CPython's position also counts the slots of
    deleted keys, and it counts the items left, raising \<^verbatim>\<open>RuntimeError\<close> for
    changed keys when it finds more. The two differ only after a key that the loop has
    passed is deleted and a key inserted within the same loop, where CPython raises and
    the model goes on; nothing below depends on that case.)
  \<^item> A raised exception is \<open>Inl\<close> of the exception; it propagates through every
    caller, as nothing in the module catches exceptions.
  \<^item> A user function is known by a number; \<open>fn env k\<close> is what it does when called:
    it may change every global and returns a value or raises.
  \<^item> The board (which pins exist, what they read at a given time) is a parameter.
\<close>

subsection \<open>Values\<close>

text \<open>A button identifier: a Python int (the gamepad bits) or a pin of the board, by name.\<close>

datatype button = Num int | Pin string

text \<open>An input driver object, as \<^verbatim>\<open>on\<close> creates them.\<close>

datatype dio = DigitalInOut button | TouchIn button

text \<open>A callable used as a task: the \<^verbatim>\<open>Gamepad\<close> instance or a user function.\<close>

datatype handler = Gamepad_instance | Fn nat

text \<open>What a handler returns: the sentinel \<^verbatim>\<open>PROPOGATE\<close>, \<^verbatim>\<open>None\<close>, or another value.\<close>

datatype pyobj = PROPOGATE | PyNone | PyVal int

datatype exn =
  RuntimeError | AttributeError | UnboundLocalError | ValueError | KeyError | Exception string

datatype message = No_functions_registered | Unknown_button button

datatype event =
  Call handler real | Return handler pyobj | Print message | Sleep real

definition DOWN :: int where "DOWN = 1"
definition UP :: int where "UP = 2"

text \<open>The namedtuple \<^verbatim>\<open>GAMEPAD\<close>, in field order A, B, START, SELECT, X, Y, Z, R.\<close>

definition GAMEPAD :: "int list" where
  "GAMEPAD = [2, 1, 4, 8, 16, 32, 64, 128]"

subsection \<open>The module's state\<close>

record state =
  RUNNING :: bool
  INTERVALS :: "(handler \<times> real \<times> real) list"
  TIMERS :: "(handler \<times> real) list"
  BUTTONS :: "button list"
  DIOS :: "dio list"
  PRESSES :: "(nat \<times> button list \<times> int) list"
  GAMEPADSHIFT :: "(dio \<times> dio \<times> dio) option"
  self_down :: "button list"
  self_pressed :: "button list"
  joystick :: "(string \<times> real) list"
  clock :: real
  trace :: "event list"

text \<open>
  \<open>INTERVALS\<close> maps a handler to \<open>(interval, last_called)\<close>, \<open>TIMERS\<close> to its
  target time. An entry of \<open>PRESSES\<close> is \<open>(fn, buttons, action)\<close>, with a user
  function as \<open>fn\<close>. \<open>self_down\<close> and \<open>self_pressed\<close> are the attributes \<^verbatim>\<open>down\<close> and
  \<^verbatim>\<open>pressed\<close> of the \<^verbatim>\<open>Gamepad\<close> instance, \<open>joystick\<close> the axis attributes of
  its \<^verbatim>\<open>Joystick\<close>.
\<close>

record env =
  fn :: "nat \<Rightarrow> real \<Rightarrow> state \<Rightarrow> exn + (pyobj \<times> state)"
  DIGITALIO :: "button list"
  TOUCHIO :: "button list"
  JOYSTICK :: "string list"
  dio_value :: "real \<Rightarrow> dio \<Rightarrow> bool"
  get_pressed :: "real \<Rightarrow> int"
  analog_value :: "real \<Rightarrow> string \<Rightarrow> real"

text \<open>The state of the module right after import.\<close>

definition initial :: "real \<Rightarrow> state" where
  "initial t = \<lparr>RUNNING = True, INTERVALS = [], TIMERS = [], BUTTONS = [], DIOS = [],
     PRESSES = [], GAMEPADSHIFT = None, self_down = [], self_pressed = [], joystick = [],
     clock = t, trace = []\<rparr>"

subsection \<open>Registration\<close>

definition tick :: "handler \<Rightarrow> state \<Rightarrow> state" where
  "tick f st = st\<lparr>INTERVALS := AList.update f (0, 0) (INTERVALS st)\<rparr>"

text \<open>\<^verbatim>\<open>every(interval, fn)\<close> and the decorator form \<^verbatim>\<open>every(interval)(fn)\<close>.\<close>

definition every :: "real \<Rightarrow> handler \<Rightarrow> state \<Rightarrow> state" where
  "every interval f st = st\<lparr>INTERVALS := AList.update f (interval, 0) (INTERVALS st)\<rparr>"

definition at_timer :: "real \<Rightarrow> handler \<Rightarrow> state \<Rightarrow> state" where
  "at_timer target f st = st\<lparr>TIMERS := AList.update f target (TIMERS st)\<rparr>"

definition after :: "real \<Rightarrow> handler \<Rightarrow> state \<Rightarrow> state" where
  "after target f st = st\<lparr>TIMERS := AList.update f (clock st + target) (TIMERS st)\<rparr>"

text \<open>The inner loop of \<^verbatim>\<open>cancel\<close>: pop the first binding of the handler, then break.\<close>

fun pop_press :: "handler \<Rightarrow> (nat \<times> button list \<times> int) list \<Rightarrow> (nat \<times> button list \<times> int) list" where
  "pop_press f [] = []"
| "pop_press f (press # rest) = (if Fn (fst press) = f then rest else press # pop_press f rest)"

definition cancel1 :: "handler \<Rightarrow> state \<Rightarrow> state" where
  "cancel1 f st = st\<lparr>INTERVALS := AList.delete f (INTERVALS st),
     TIMERS := AList.delete f (TIMERS st), PRESSES := pop_press f (PRESSES st)\<rparr>"

definition cancel :: "handler list \<Rightarrow> state \<Rightarrow> state" where
  "cancel fns st = fold cancel1 fns st"

definition print :: "message \<Rightarrow> state \<Rightarrow> state" where
  "print m st = st\<lparr>trace := trace st @ [Print m]\<rparr>"

text \<open>
  The loop of \<^verbatim>\<open>on\<close> over its buttons. The local variable \<^verbatim>\<open>dio\<close> is unbound
  (\<open>None\<close>) when the function starts and keeps its value from one round to the next.
\<close>

fun on_buttons :: "env \<Rightarrow> button list \<Rightarrow> dio option \<Rightarrow> state \<Rightarrow> exn + state" where
  "on_buttons e [] dio st = Inr st"
| "on_buttons e (button # rest) dio st =
     (if button \<notin> set (BUTTONS st) then
        (if button \<in> set (map Num GAMEPAD) then
           on_buttons e rest dio
             (if GAMEPADSHIFT st = None
              then st\<lparr>GAMEPADSHIFT := Some (DigitalInOut (Pin ''BUTTON_CLOCK''),
                     DigitalInOut (Pin ''BUTTON_OUT''), DigitalInOut (Pin ''BUTTON_LATCH''))\<rparr>
              else st)
         else
           (let (dio', st') =
                  (if button \<in> set (DIGITALIO e) then (Some (DigitalInOut button), st)
                   else if button \<in> set (TOUCHIO e) then (Some (TouchIn button), st)
                   else (dio, print (Unknown_button button) st))
            in case dio' of
                 None \<Rightarrow> Inl UnboundLocalError
               | Some d \<Rightarrow>
                   on_buttons e rest dio'
                     (st'\<lparr>BUTTONS := BUTTONS st' @ [button], DIOS := DIOS st' @ [d]\<rparr>)))
      else on_buttons e rest dio st)"

definition wrapper :: "button list \<Rightarrow> int \<Rightarrow> nat \<Rightarrow> state \<Rightarrow> state" where
  "wrapper buttons action f st = st\<lparr>PRESSES := PRESSES st @ [(f, buttons, action)]\<rparr>"

text \<open>\<^verbatim>\<open>on(*buttons, fn=f, action=a)\<close> and the decorator form \<^verbatim>\<open>on(*buttons, action=a)(f)\<close>.\<close>

definition on :: "env \<Rightarrow> button list \<Rightarrow> nat \<Rightarrow> int \<Rightarrow> state \<Rightarrow> exn + state" where
  "on e buttons f action st =
     (case on_buttons e buttons None st of
        Inl x \<Rightarrow> Inl x
      | Inr st' \<Rightarrow> Inr (wrapper buttons action f st'))"

definition stop :: "state \<Rightarrow> state" where
  "stop st = st\<lparr>RUNNING := False\<rparr>"

subsection \<open>The joystick\<close>

text \<open>\<^verbatim>\<open>Joystick.set\<close>, for the instance that \<^verbatim>\<open>Gamepad()\<close> creates with the default
  arguments \<^verbatim>\<open>deadzone=0.1, low=0, high=2**16\<close>.\<close>

definition deadzone :: real where "deadzone = 1 / 10"
definition low :: real where "low = 0"
definition high :: real where "high = 2 ^ 16"

definition Joystick_set :: "string \<Rightarrow> real \<Rightarrow> state \<Rightarrow> state" where
  "Joystick_set name v st =
     (let v' =
        (if v \<le> low then - 1
         else if v \<ge> high then 1
         else
           (let w = ((v * 2) / (high - low)) - 1
            in if \<bar>w\<bar> < deadzone then 0
               else if w \<ge> 99 / 100 then 1
               else if w \<le> - (99 / 100) then - 1
               else w))
      in st\<lparr>joystick := AList.update name v' (joystick st)\<rparr>)"

text \<open>\<^verbatim>\<open>Gamepad.__init__\<close>, which also runs \<^verbatim>\<open>Joystick.__init__\<close>.\<close>

definition Gamepad_init :: "env \<Rightarrow> state \<Rightarrow> state" where
  "Gamepad_init e st =
     fold (\<lambda>name. Joystick_set name 0) (JOYSTICK e)
       (st\<lparr>self_down := [], self_pressed := [], joystick := []\<rparr>)"

subsection \<open>The poll: \<^verbatim>\<open>Gamepad.__call__\<close>\<close>

text \<open>Calling a user function, with the call and its return on the trace.\<close>

definition call_fn :: "env \<Rightarrow> nat \<Rightarrow> real \<Rightarrow> state \<Rightarrow> exn + (pyobj \<times> state)" where
  "call_fn e k now st =
     (case fn e k now (st\<lparr>trace := trace st @ [Call (Fn k) now]\<rparr>) of
        Inl x \<Rightarrow> Inl x
      | Inr (v, st') \<Rightarrow> Inr (v, st'\<lparr>trace := trace st' @ [Return (Fn k) v]\<rparr>))"

text \<open>
  The loop over \<^verbatim>\<open>PRESSES\<close> at the end of the poll. A Python \<^verbatim>\<open>for\<close> over a list
  reads the list by index at every step, so the model reads \<open>PRESSES\<close> of the current
  state at index \<open>idx\<close>. A handler can make the list grow for ever; then the loop does
  not return, and the model's value is \<open>None\<close>.
\<close>

partial_function (option) dispatch ::
  "env \<Rightarrow> real \<Rightarrow> button list \<Rightarrow> button list \<Rightarrow> nat \<Rightarrow> state \<Rightarrow> (exn + state) option" where
  "dispatch e now fresh_down fresh_up idx st =
     (if idx < length (PRESSES st) then
        (case PRESSES st ! idx of (f, buttons, action) \<Rightarrow>
           (case (if action = DOWN \<and> list_all (\<lambda>b. b \<in> set fresh_down) buttons
                  then call_fn e f now st
                  else if action = UP \<and> list_all (\<lambda>b. b \<in> set fresh_up) buttons
                  then call_fn e f now st
                  else Inr (PROPOGATE, st)) of
              Inl x \<Rightarrow> Some (Inl x)
            | Inr (v, st') \<Rightarrow>
                if v \<noteq> PROPOGATE then Some (Inr st')
                else dispatch e now fresh_down fresh_up (idx + 1) st'))
      else Some (Inr st))"

declare dispatch.simps [code]

text \<open>\<^verbatim>\<open>for btn in fresh_up: self.pressed.remove(btn)\<close>; \<^verbatim>\<open>list.remove\<close> raises
  \<^verbatim>\<open>ValueError\<close> when the element is absent.\<close>

fun remove_each :: "button list \<Rightarrow> button list \<Rightarrow> exn + button list" where
  "remove_each [] pressed = Inr pressed"
| "remove_each (btn # rest) pressed =
     (if btn \<in> set pressed then remove_each rest (remove1 btn pressed) else Inl ValueError)"

text \<open>The list \<^verbatim>\<open>down\<close> that a poll reads from the drivers.\<close>

definition read_down :: "env \<Rightarrow> state \<Rightarrow> button list" where
  "read_down e st =
     (let gp_value = get_pressed e (clock st);
          gp_down = map Num (filter (\<lambda>button. gp_value AND button \<noteq> 0) GAMEPAD);
          down = map fst (filter (\<lambda>(button, dio). dio_value e (clock st) dio)
                   (zip (BUTTONS st) (DIOS st)))
      in down @ gp_down)"

text \<open>The poll from the comparison \<^verbatim>\<open>down != self.down\<close> on, for a given list \<^verbatim>\<open>down\<close>.\<close>

definition confirm :: "env \<Rightarrow> real \<Rightarrow> button list \<Rightarrow> state \<Rightarrow> (exn + state) option" where
  "confirm e now down st =
     (if down \<noteq> self_down st then Some (Inr (st\<lparr>self_down := down\<rparr>))
      else
        (let fresh_down = filter (\<lambda>b. b \<notin> set (self_pressed st)) down;
             fresh_up = filter (\<lambda>b. b \<notin> set down) (self_pressed st);
             st1 = (if fresh_down \<noteq> []
                    then st\<lparr>self_pressed := self_pressed st @ fresh_down\<rparr> else st)
         in case (if fresh_up \<noteq> [] then remove_each fresh_up (self_pressed st1)
                  else Inr (self_pressed st1)) of
              Inl x \<Rightarrow> Some (Inl x)
            | Inr pressed \<Rightarrow>
                (let st2 = st1\<lparr>self_pressed := pressed\<rparr>
                 in if \<not> (fresh_down \<noteq> [] \<or> fresh_up \<noteq> []) then Some (Inr st2)
                    else dispatch e now fresh_down fresh_up 0 st2)))"

text \<open>\<^verbatim>\<open>Gamepad.__call__\<close>: the joystick axes, then the gamepad register (an attribute
  of \<^verbatim>\<open>None\<close> when \<^verbatim>\<open>GAMEPADSHIFT\<close> was never allocated), then the buttons.\<close>

definition Gamepad_call :: "env \<Rightarrow> real \<Rightarrow> state \<Rightarrow> (exn + state) option" where
  "Gamepad_call e now st =
     (let st1 = fold (\<lambda>name s. Joystick_set name (analog_value e (clock s) name) s)
                  (JOYSTICK e) st
      in case GAMEPADSHIFT st1 of
           None \<Rightarrow> Some (Inl AttributeError)
         | Some shift \<Rightarrow> confirm e now (read_down e st1) st1)"

subsection \<open>The event loop: \<^verbatim>\<open>start\<close>\<close>

text \<open>The call \<^verbatim>\<open>fn(now)\<close> of a task by the loop; the returned value is dropped.\<close>

definition invoke :: "env \<Rightarrow> handler \<Rightarrow> real \<Rightarrow> state \<Rightarrow> (exn + state) option" where
  "invoke e h now st =
     (case h of
        Fn k \<Rightarrow>
          (case call_fn e k now st of Inl x \<Rightarrow> Some (Inl x) | Inr (v, st') \<Rightarrow> Some (Inr st'))
      | Gamepad_instance \<Rightarrow>
          (case Gamepad_call e now (st\<lparr>trace := trace st @ [Call Gamepad_instance now]\<rparr>) of
             None \<Rightarrow> None
           | Some (Inl x) \<Rightarrow> Some (Inl x)
           | Some (Inr st') \<Rightarrow>
               Some (Inr (st'\<lparr>trace := trace st' @ [Return Gamepad_instance PyNone]\<rparr>))))"

text \<open>
  \<^verbatim>\<open>for item in d.items(): body\<close> over a dict held in the state: \<open>used\<close> is the
  size of the dict when the loop began, \<open>pos\<close> the number of items yielded so far.
\<close>

function for_items ::
  "(state \<Rightarrow> ('k \<times> 'v) list) \<Rightarrow> ('k \<times> 'v \<Rightarrow> state \<Rightarrow> (exn + state) option) \<Rightarrow>
     nat \<Rightarrow> nat \<Rightarrow> state \<Rightarrow> (exn + state) option" where
  "for_items d body used pos st =
     (if length (d st) \<noteq> used then Some (Inl RuntimeError)
      else if pos < length (d st) then
        (case body (d st ! pos) st of
           None \<Rightarrow> None
         | Some (Inl x) \<Rightarrow> Some (Inl x)
         | Some (Inr st') \<Rightarrow> for_items d body used (pos + 1) st')
      else Some (Inr st))"
  by pat_completeness auto
termination
  by (relation "measure (\<lambda>(d, body, used, pos, st). used - pos)") auto

declare for_items.simps [simp del]

text \<open>The body of the loop over \<^verbatim>\<open>INTERVALS.items()\<close>. Its last statement,
  \<^verbatim>\<open>target += interval\<close>, assigns a local variable that is not read again.\<close>

definition fire_interval :: "env \<Rightarrow> real \<Rightarrow> handler \<times> real \<times> real \<Rightarrow> state \<Rightarrow> (exn + state) option" where
  "fire_interval e now item st =
     (case item of (f, interval, last_called) \<Rightarrow>
        (let target = last_called + interval
         in if target \<le> now then
              (case invoke e f now st of
                 None \<Rightarrow> None
               | Some (Inl x) \<Rightarrow> Some (Inl x)
               | Some (Inr st') \<Rightarrow>
                   Some (Inr (st'\<lparr>INTERVALS := AList.update f (interval, now) (INTERVALS st')\<rparr>)))
            else Some (Inr st)))"

text \<open>The body of the loop over \<^verbatim>\<open>TIMERS.items()\<close>; \<^verbatim>\<open>del\<close> of an absent key
  raises \<^verbatim>\<open>KeyError\<close>.\<close>

definition fire_timer :: "env \<Rightarrow> real \<Rightarrow> handler \<times> real \<Rightarrow> state \<Rightarrow> (exn + state) option" where
  "fire_timer e now item st =
     (case item of (f, target) \<Rightarrow>
        (if target \<le> now then
           (if f \<in> fst ` set (TIMERS st)
            then invoke e f now (st\<lparr>TIMERS := AList.delete f (TIMERS st)\<rparr>)
            else Some (Inl KeyError))
         else Some (Inr st)))"

text \<open>Python's \<^verbatim>\<open>min\<close> of a list: \<^verbatim>\<open>ValueError\<close> on the empty list.\<close>

definition py_min :: "real list \<Rightarrow> exn + real" where
  "py_min xs =
     (case xs of
        [] \<Rightarrow> Inl ValueError
      | x # rest \<Rightarrow> Inr (fold (\<lambda>item best. if item < best then item else best) rest x))"

text \<open>The source names the two components of a value of \<^verbatim>\<open>INTERVALS\<close> the other way
  round here and adds them.\<close>

definition next_target :: "state \<Rightarrow> exn + real" where
  "next_target st =
     py_min (map (\<lambda>(last_called, interval). last_called + interval) (map snd (INTERVALS st))
             @ map snd (TIMERS st))"

definition sleep :: "real \<Rightarrow> state \<Rightarrow> state" where
  "sleep slp st = st\<lparr>clock := clock st + slp, trace := trace st @ [Sleep slp]\<rparr>"

text \<open>The inner \<^verbatim>\<open>while True\<close> of \<^verbatim>\<open>start\<close>, which sleeps until the target is reached.\<close>

function sleep_until :: "real \<Rightarrow> state \<Rightarrow> state" where
  "sleep_until target st =
     (let slp = target - clock st
      in if slp > 0 then sleep_until target (sleep slp st) else st)"
  by pat_completeness auto
termination
  by (relation "measure (\<lambda>(target, st). if target - clock st > 0 then 1 else 0)")
    (auto simp: sleep_def)

declare sleep_until.simps [simp del]

text \<open>One round of the outer \<^verbatim>\<open>while True\<close>: it returns from \<^verbatim>\<open>start\<close> or goes on.\<close>

datatype round = Return_from_start state | Next_round state

definition iteration :: "env \<Rightarrow> state \<Rightarrow> (exn + round) option" where
  "iteration e st =
     (if TIMERS st = [] \<and> INTERVALS st = []
      then Some (Inr (Return_from_start (print No_functions_registered st)))
      else
        (let now = clock st
         in case for_items INTERVALS (fire_interval e now) (length (INTERVALS st)) 0 st of
              None \<Rightarrow> None
            | Some (Inl x) \<Rightarrow> Some (Inl x)
            | Some (Inr st1) \<Rightarrow>
                (case for_items TIMERS (fire_timer e now) (length (TIMERS st1)) 0 st1 of
                   None \<Rightarrow> None
                 | Some (Inl x) \<Rightarrow> Some (Inl x)
                 | Some (Inr st2) \<Rightarrow>
                     (case next_target st2 of
                        Inl x \<Rightarrow> Some (Inl x)
                      | Inr t \<Rightarrow> Some (Inr (Next_round (sleep_until t st2)))))))"

text \<open>
  The outer loop may run for ever; \<open>loop n\<close> runs at most \<open>n\<close> rounds of it.
  \<open>Running st\<close>: the loop has not ended after \<open>n\<close> rounds and is in state \<open>st\<close>.
  \<open>Diverged\<close>: a round did not end.
\<close>

datatype outcome = Returned state | Raised exn | Diverged | Running state

fun loop :: "nat \<Rightarrow> env \<Rightarrow> state \<Rightarrow> outcome" where
  "loop 0 e st = Running st"
| "loop (Suc n) e st =
     (case iteration e st of
        None \<Rightarrow> Diverged
      | Some (Inl x) \<Rightarrow> Raised x
      | Some (Inr (Return_from_start st')) \<Rightarrow> Returned st'
      | Some (Inr (Next_round st')) \<Rightarrow> loop n e st')"

text \<open>\<^verbatim>\<open>start(fn)\<close>; \<open>None\<close> is the call without an initial function. The model
  is of the first call of \<^verbatim>\<open>start\<close> in a run: there is one \<^verbatim>\<open>Gamepad\<close> instance,
  with the key \<open>Gamepad_instance\<close>. (A later call would create another instance,
  registered beside the first one.)\<close>

definition start :: "nat \<Rightarrow> env \<Rightarrow> handler option \<Rightarrow> state \<Rightarrow> outcome" where
  "start n e f st =
     (let st1 = every (2 / 100) Gamepad_instance (Gamepad_init e st);
          st2 = (case f of Some g \<Rightarrow> at_timer 0 g st1 | None \<Rightarrow> st1)
      in loop n e st2)"

section \<open>Definitions used to state the properties\<close>

text \<open>A registration call, and a sequence of them applied in order.\<close>

datatype registration =
  Tick handler | Every real handler | At real handler | After real handler

fun register :: "registration \<Rightarrow> state \<Rightarrow> state" where
  "register (Tick f) st = tick f st"
| "register (Every interval f) st = every interval f st"
| "register (At target f) st = at_timer target f st"
| "register (After target f) st = after target f st"

text \<open>
  Consecutive polls, each given with its time and with the list \<^verbatim>\<open>down\<close> it reads,
  when nothing else touches the state between them.
\<close>

fun polls :: "env \<Rightarrow> (real \<times> button list) list \<Rightarrow> state \<Rightarrow> (exn + state) option" where
  "polls e [] st = Some (Inr st)"
| "polls e ((now, down) # rest) st =
     (case confirm e now down st of
        None \<Rightarrow> None
      | Some (Inl x) \<Rightarrow> Some (Inl x)
      | Some (Inr st') \<Rightarrow> polls e rest st')"

text \<open>When a binding matches the fresh sets of a poll.\<close>

definition matches :: "button list \<Rightarrow> button list \<Rightarrow> nat \<times> button list \<times> int \<Rightarrow> bool" where
  "matches fresh_down fresh_up press =
     (case press of (f, buttons, action) \<Rightarrow>
        (action = DOWN \<and> list_all (\<lambda>b. b \<in> set fresh_down) buttons)
        \<or> (action = UP \<and> list_all (\<lambda>b. b \<in> set fresh_up) buttons))"

text \<open>
  The dispatch pass as the specification words it, over a fixed list of bindings:
  each binding in order; a matching one has its handler called; a returned value other
  than the sentinel ends the pass. It also returns who was called, with what result.
\<close>

fun in_order ::
  "env \<Rightarrow> real \<Rightarrow> button list \<Rightarrow> button list \<Rightarrow> (nat \<times> button list \<times> int) list \<Rightarrow> state \<Rightarrow>
     exn + ((nat \<times> pyobj) list \<times> state)" where
  "in_order e now fresh_down fresh_up [] st = Inr ([], st)"
| "in_order e now fresh_down fresh_up (press # rest) st =
     (if matches fresh_down fresh_up press then
        (case call_fn e (fst press) now st of
           Inl x \<Rightarrow> Inl x
         | Inr (v, st') \<Rightarrow>
             if v \<noteq> PROPOGATE then Inr ([(fst press, v)], st')
             else
               (case in_order e now fresh_down fresh_up rest st' of
                  Inl x \<Rightarrow> Inl x
                | Inr (invoked, st'') \<Rightarrow> Inr ((fst press, v) # invoked, st'')))
      else in_order e now fresh_down fresh_up rest st)"

text \<open>The events that a list of calls with their results leaves on the trace.\<close>

definition calls_of :: "real \<Rightarrow> (nat \<times> pyobj) list \<Rightarrow> event list" where
  "calls_of now invoked = concat (map (\<lambda>(f, v). [Call (Fn f) now, Return (Fn f) v]) invoked)"

text \<open>User functions that leave the list of bindings alone.\<close>

definition keeps_bindings :: "env \<Rightarrow> bool" where
  "keeps_bindings e = (\<forall>k t s v s'. fn e k t s = Inr (v, s') \<longrightarrow> PRESSES s' = PRESSES s)"

text \<open>User functions that leave the list of bindings alone and write nothing on the trace.\<close>

definition quiet :: "env \<Rightarrow> bool" where
  "quiet e = (\<forall>k t s v s'. fn e k t s = Inr (v, s') \<longrightarrow>
      PRESSES s' = PRESSES s \<and> trace s' = trace s)"

text \<open>
  The pass over the periodic tasks as the specification words it: over the list of
  tasks as it was when the pass began. A task that is due by that list is called and
  re-anchored to \<open>now\<close> in the registry.
\<close>

fun fire_snapshot ::
  "env \<Rightarrow> real \<Rightarrow> (handler \<times> real \<times> real) list \<Rightarrow> state \<Rightarrow> (exn + state) option" where
  "fire_snapshot e now [] st = Some (Inr st)"
| "fire_snapshot e now ((f, interval, last_fired) # rest) st =
     (if last_fired + interval \<le> now then
        (case invoke e f now st of
           None \<Rightarrow> None
         | Some (Inl x) \<Rightarrow> Some (Inl x)
         | Some (Inr st') \<Rightarrow>
             fire_snapshot e now rest
               (st'\<lparr>INTERVALS := AList.update f (interval, now) (INTERVALS st')\<rparr>))
      else fire_snapshot e now rest st)"

text \<open>User functions that neither register nor cancel a periodic task.\<close>

definition keeps_intervals :: "env \<Rightarrow> bool" where
  "keeps_intervals e = (\<forall>k t s v s'. fn e k t s = Inr (v, s') \<longrightarrow> INTERVALS s' = INTERVALS s)"

subsection \<open>Example boards and states\<close>

text \<open>A board with two digital pins and one touch pad, nothing pressed, and user
  functions that do nothing and return \<^verbatim>\<open>None\<close>.\<close>

definition demo_board :: env where
  "demo_board = \<lparr>fn = (\<lambda>k now st. Inr (PyNone, st)),
     DIGITALIO = [Pin ''D1'', Pin ''BUTTON_A''], TOUCHIO = [Pin ''A1''], JOYSTICK = [],
     dio_value = (\<lambda>t d. False), get_pressed = (\<lambda>t. 0), analog_value = (\<lambda>t name. 0)\<rparr>"

text \<open>The same board while pin D1 reads high.\<close>

definition d1_pressed :: env where
  "d1_pressed = demo_board\<lparr>dio_value := (\<lambda>t d. d = DigitalInOut (Pin ''D1''))\<rparr>"

text \<open>The same board while gamepad button A (bit 2) is held.\<close>

definition a_held :: env where
  "a_held = demo_board\<lparr>get_pressed := (\<lambda>t. 2)\<rparr>"

text \<open>User function 0 returns the sentinel, the others return \<^verbatim>\<open>None\<close>.\<close>

definition first_propagates :: env where
  "first_propagates = demo_board\<lparr>fn := (\<lambda>k now st.
      if k = 0 then Inr (PROPOGATE, st) else Inr (PyNone, st))\<rparr>"

text \<open>User function 0 calls \<^verbatim>\<open>cancel\<close> on itself and returns the sentinel, the
  others return \<^verbatim>\<open>None\<close>.\<close>

definition self_cancel :: env where
  "self_cancel = demo_board\<lparr>fn := (\<lambda>k now st.
      if k = 0 then Inr (PROPOGATE, cancel [Fn 0] st) else Inr (PyNone, st))\<rparr>"

text \<open>Every user function calls \<^verbatim>\<open>stop()\<close>.\<close>

definition stops :: env where
  "stops = demo_board\<lparr>fn := (\<lambda>k now st. Inr (PyNone, stop st))\<rparr>"

text \<open>User function \<open>k\<close> calls \<^verbatim>\<open>every(1, g)\<close> for another function \<open>g\<close>.\<close>

definition registers :: env where
  "registers = demo_board\<lparr>fn := (\<lambda>k now st. Inr (PyNone, every 1 (Fn (Suc k)) st))\<rparr>"

text \<open>User function 0 calls \<^verbatim>\<open>cancel(f3)\<close> and then \<^verbatim>\<open>every(1, f2)\<close>.\<close>

definition swaps :: env where
  "swaps = demo_board\<lparr>fn := (\<lambda>k now st.
      if k = 0 then Inr (PyNone, every 1 (Fn 2) (cancel [Fn 3] st)) else Inr (PyNone, st))\<rparr>"

text \<open>User function \<open>k\<close> calls \<^verbatim>\<open>cancel(g)\<close> for another function \<open>g\<close>.\<close>

definition cancels :: env where
  "cancels = demo_board\<lparr>fn := (\<lambda>k now st. Inr (PyNone, cancel [Fn (Suc k)] st))\<rparr>"

text \<open>The state at time \<open>t\<close> after \<^verbatim>\<open>on(GAMEPAD.A, fn=f1)\<close> alone: one binding, the
  gamepad register allocated, no task.\<close>

definition gamepad_bound :: "real \<Rightarrow> state" where
  "gamepad_bound t = (initial t)\<lparr>PRESSES := [(1, [Num 2], DOWN)],
     GAMEPADSHIFT := Some (DigitalInOut (Pin ''BUTTON_CLOCK''),
       DigitalInOut (Pin ''BUTTON_OUT''), DigitalInOut (Pin ''BUTTON_LATCH''))\<rparr>"

text \<open>That state when the poll before has recorded button A as down, and the state
  after the poll that confirms it.\<close>

definition a_recorded :: state where
  "a_recorded = (gamepad_bound 1)\<lparr>self_down := [Num 2]\<rparr>"

definition a_confirmed :: state where
  "a_confirmed = (gamepad_bound 1)\<lparr>self_down := [Num 2], self_pressed := [Num 2],
     trace := [Call (Fn 1) 1, Return (Fn 1) PyNone]\<rparr>"

text \<open>That state with three periodic tasks registered, the last one not due at time 1.\<close>

definition three_periodic :: state where
  "three_periodic = (gamepad_bound 1)\<lparr>INTERVALS :=
      [(Fn 0, 0, 0), (Gamepad_instance, 2 / 100, 0), (Fn 1, 5, 0)], TIMERS := [(Fn 2, 9)]\<rparr>"

text \<open>A state with two periodic tasks and one timer.\<close>

definition three_tasks :: state where
  "three_tasks = (initial 3)\<lparr>INTERVALS := [(Fn 0, 1, 3), (Gamepad_instance, 2 / 100, 3)],
     TIMERS := [(Fn 1, 7 / 2)]\<rparr>"

text \<open>Three bindings on gamepad button A.\<close>

definition three_bindings :: state where
  "three_bindings = (initial 7)\<lparr>PRESSES :=
      [(0, [Num 2], DOWN), (1, [Num 2], DOWN), (2, [Num 2], DOWN)]\<rparr>"

section \<open>Registration\<close>

lemma register_distinct:
  "distinct (map fst (INTERVALS st)) \<and> distinct (map fst (TIMERS st)) \<Longrightarrow>
   distinct (map fst (INTERVALS (register r st))) \<and> distinct (map fst (TIMERS (register r st)))"
  by (cases r) (simp_all add: tick_def every_def at_timer_def after_def distinct_update)

lemma registers_distinct:
  "distinct (map fst (INTERVALS st)) \<and> distinct (map fst (TIMERS st)) \<Longrightarrow>
   distinct (map fst (INTERVALS (fold register rs st))) \<and>
   distinct (map fst (TIMERS (fold register rs st)))"
proof (induction rs arbitrary: st)
  case Nil
  then show ?case by simp
next
  case (Cons r rs)
  from Cons.prems have "distinct (map fst (INTERVALS (register r st))) \<and>
      distinct (map fst (TIMERS (register r st)))"
    by (rule register_distinct)
  then show ?case using Cons.IH by simp
qed

lemma distinct_keys_one_entry:
  "distinct (map fst xs) \<Longrightarrow> length (filter (\<lambda>p. fst p = h) xs) \<le> 1"
proof (induction xs)
  case Nil
  then show ?case by simp
next
  case (Cons x xs)
  show ?case
  proof (cases "fst x = h")
    case True
    with Cons.prems have "h \<notin> fst ` set xs" by auto
    then have "filter (\<lambda>p. fst p = h) xs = []"
      by (auto simp: filter_empty_conv)
    with True show ?thesis by simp
  next
    case False
    with Cons show ?thesis by simp
  qed
qed

lemma update_present_keys:
  "k \<in> fst ` set al \<Longrightarrow> map fst (AList.update k v al) = map fst al"
  by (simp add: update_keys)

lemma update_lookup: "map_of (AList.update k v al) k = Some v"
  by (simp add: update_conv')

text \<open>
  Claim C5 fails as stated: \<^verbatim>\<open>every\<close> writes only \<^verbatim>\<open>INTERVALS\<close> and \<^verbatim>\<open>at\<close> only
  \<^verbatim>\<open>TIMERS\<close>, so a handler registered as periodic and then as one-shot is in both.
\<close>

theorem handler_in_both_sets_counterexample:
  "Fn 0 \<in> fst ` set (INTERVALS (at_timer 5 (Fn 0) (every 1 (Fn 0) (initial 0))))
   \<and> Fn 0 \<in> fst ` set (TIMERS (at_timer 5 (Fn 0) (every 1 (Fn 0) (initial 0))))"
  by (simp add: at_timer_def every_def initial_def)

text \<open>
  Claim C5, as amended: after every sequence of registration calls, each of the two
  sets holds at most one entry for every handler; registering a handler that a set
  already holds replaces its value in place (the keys and their order stay, the lookup
  gives the new value); and a registration in one set leaves the other set as it was.
  (\<^verbatim>\<open>tick\<close> is \<^verbatim>\<open>every\<close> with interval 0, \<^verbatim>\<open>after\<close> is \<^verbatim>\<open>at\<close> counted from the
  clock.)
\<close>

theorem registration_one_entry_per_set:
  assumes "distinct (map fst (INTERVALS st))" and "distinct (map fst (TIMERS st))"
  shows "length (filter (\<lambda>p. fst p = h) (INTERVALS (fold register rs st))) \<le> 1
    \<and> length (filter (\<lambda>p. fst p = h) (TIMERS (fold register rs st))) \<le> 1
    \<and> (h \<in> fst ` set (INTERVALS st) \<longrightarrow>
         map fst (INTERVALS (every i h st)) = map fst (INTERVALS st)
         \<and> map_of (INTERVALS (every i h st)) h = Some (i, 0))
    \<and> (h \<in> fst ` set (TIMERS st) \<longrightarrow>
         map fst (TIMERS (at_timer t h st)) = map fst (TIMERS st)
         \<and> map_of (TIMERS (at_timer t h st)) h = Some t)
    \<and> TIMERS (every i h st) = TIMERS st
    \<and> INTERVALS (at_timer t h st) = INTERVALS st
    \<and> tick h st = every 0 h st
    \<and> after t h st = at_timer (clock st + t) h st"
proof -
  from assms have d: "distinct (map fst (INTERVALS (fold register rs st))) \<and>
      distinct (map fst (TIMERS (fold register rs st)))"
    by (intro registers_distinct) simp
  have a: "length (filter (\<lambda>p. fst p = h) (INTERVALS (fold register rs st))) \<le> 1"
    using d by (intro distinct_keys_one_entry) simp
  have b: "length (filter (\<lambda>p. fst p = h) (TIMERS (fold register rs st))) \<le> 1"
    using d by (intro distinct_keys_one_entry) simp
  have c: "h \<in> fst ` set (INTERVALS st) \<longrightarrow>
         map fst (INTERVALS (every i h st)) = map fst (INTERVALS st)
         \<and> map_of (INTERVALS (every i h st)) h = Some (i, 0)"
    by (simp add: every_def update_present_keys update_lookup)
  have e: "h \<in> fst ` set (TIMERS st) \<longrightarrow>
         map fst (TIMERS (at_timer t h st)) = map fst (TIMERS st)
         \<and> map_of (TIMERS (at_timer t h st)) h = Some t"
    by (simp add: at_timer_def update_present_keys update_lookup)
  have f: "TIMERS (every i h st) = TIMERS st \<and> INTERVALS (at_timer t h st) = INTERVALS st"
    by (simp add: every_def at_timer_def)
  have g: "tick h st = every 0 h st \<and> after t h st = at_timer (clock st + t) h st"
    by (simp add: tick_def every_def after_def at_timer_def)
  from a b c e f g show ?thesis by blast
qed

theorem registration_one_entry_per_set_witness:
  "length (filter (\<lambda>p. fst p = Fn 0)
      (INTERVALS (fold register [Every 1 (Fn 0), At 5 (Fn 0), Every 2 (Fn 0)] (initial 0)))) \<le> 1
   \<and> INTERVALS (fold register [Every 1 (Fn 0), At 5 (Fn 0), Every 2 (Fn 0)] (initial 0))
       = [(Fn 0, 2, 0)]
   \<and> TIMERS (fold register [Every 1 (Fn 0), At 5 (Fn 0), Every 2 (Fn 0)] (initial 0))
       = [(Fn 0, 5)]"
  using registration_one_entry_per_set [of "initial 0" "Fn 0"
      "[Every 1 (Fn 0), At 5 (Fn 0), Every 2 (Fn 0)]" 1 5]
  by (simp add: initial_def every_def at_timer_def)

section \<open>Button bindings\<close>

text \<open>
  Claim C6 fails as stated: \<^verbatim>\<open>on\<close> with no buttons is not rejected; the binding
  with the empty combo is appended to \<^verbatim>\<open>PRESSES\<close>.
\<close>

theorem empty_combo_counterexample:
  "on demo_board [] 0 DOWN (initial 0) = Inr ((initial 0)\<lparr>PRESSES := [(0, [], DOWN)]\<rparr>)"
  by (simp add: on_def wrapper_def initial_def)

text \<open>
  Claim C6, as amended: registering a binding with an empty button set is accepted:
  \<^verbatim>\<open>on\<close> appends the binding to the binding list and changes nothing else; and when
  a dispatch pass reaches such a binding with action \<^verbatim>\<open>DOWN\<close> or \<^verbatim>\<open>UP\<close>, the binding
  matches whatever the fresh sets are, so its handler is called.
\<close>

theorem empty_combo_is_registered:
  "on e [] f action st = Inr (st\<lparr>PRESSES := PRESSES st @ [(f, [], action)]\<rparr>)
   \<and> (idx < length (PRESSES s) \<and> PRESSES s ! idx = (f, [], action)
        \<and> (action = DOWN \<or> action = UP) \<longrightarrow>
      dispatch e now fresh_down fresh_up idx s =
        (case call_fn e f now s of
           Inl x \<Rightarrow> Some (Inl x)
         | Inr (v, st') \<Rightarrow>
             if v \<noteq> PROPOGATE then Some (Inr st')
             else dispatch e now fresh_down fresh_up (idx + 1) st'))"
proof -
  have a: "on e [] f action st = Inr (st\<lparr>PRESSES := PRESSES st @ [(f, [], action)]\<rparr>)"
    by (simp add: on_def wrapper_def)
  have b: "dispatch e now fresh_down fresh_up idx s =
        (case call_fn e f now s of
           Inl x \<Rightarrow> Some (Inl x)
         | Inr (v, st') \<Rightarrow>
             if v \<noteq> PROPOGATE then Some (Inr st')
             else dispatch e now fresh_down fresh_up (idx + 1) st')"
    if "idx < length (PRESSES s)" and "PRESSES s ! idx = (f, [], action)"
      and "action = DOWN \<or> action = UP"
    using that by (subst dispatch.simps) auto
  from a b show ?thesis by blast
qed

theorem empty_combo_is_registered_witness:
  "on demo_board [] 0 UP (initial 0) = Inr ((initial 0)\<lparr>PRESSES := [(0, [], UP)]\<rparr>)
   \<and> dispatch demo_board 5 [Num 2] [] 0 ((initial 0)\<lparr>PRESSES := [(0, [], UP)]\<rparr>)
       = Some (Inr ((initial 0)\<lparr>PRESSES := [(0, [], UP)],
                     trace := [Call (Fn 0) 5, Return (Fn 0) PyNone]\<rparr>))"
  using empty_combo_is_registered [where e = demo_board and f = 0 and action = UP
      and st = "initial 0" and idx = 0 and s = "(initial 0)\<lparr>PRESSES := [(0, [], UP)]\<rparr>"
      and now = 5 and fresh_down = "[Num 2]" and fresh_up = "[]"]
  by (simp add: initial_def demo_board_def call_fn_def dispatch.simps)

text \<open>
  Claim C7, evaluated: a pin that is neither in \<^verbatim>\<open>DIGITALIO\<close> nor in \<^verbatim>\<open>TOUCHIO\<close>
  nor a gamepad bit. As the first new button of a call, \<^verbatim>\<open>on\<close> raises
  \<^verbatim>\<open>UnboundLocalError\<close> at \<^verbatim>\<open>DIOS.append(dio)\<close> and registers no binding. After a
  known button in the same call, it is appended to \<^verbatim>\<open>BUTTONS\<close> with the driver of
  that known button, and a poll then reads it as down whenever that button is down.
\<close>

theorem unknown_button_breaks_on:
  "on demo_board [Pin ''NEOPIXEL''] 0 DOWN (initial 0) = Inl UnboundLocalError
   \<and> on demo_board [Pin ''D1'', Pin ''NEOPIXEL''] 0 DOWN (initial 0)
       = Inr ((initial 0)\<lparr>BUTTONS := [Pin ''D1'', Pin ''NEOPIXEL''],
                DIOS := [DigitalInOut (Pin ''D1''), DigitalInOut (Pin ''D1'')],
                PRESSES := [(0, [Pin ''D1'', Pin ''NEOPIXEL''], DOWN)],
                trace := [Print (Unknown_button (Pin ''NEOPIXEL''))]\<rparr>)
   \<and> read_down d1_pressed ((initial 0)\<lparr>BUTTONS := [Pin ''D1'', Pin ''NEOPIXEL''],
                DIOS := [DigitalInOut (Pin ''D1''), DigitalInOut (Pin ''D1'')]\<rparr>)
       = [Pin ''D1'', Pin ''NEOPIXEL'']"
  by (simp add: on_def wrapper_def initial_def demo_board_def d1_pressed_def GAMEPAD_def
      print_def read_down_def)

section \<open>The wake target\<close>

lemma fold_min_Min:
  "fold (\<lambda>item best. if item < best then item else best) xs (x::real) = Min (set (x # xs))"
proof (induction xs arbitrary: x)
  case Nil
  then show ?case by simp
next
  case (Cons a xs)
  have "Min (insert (if a < x then a else x) (set xs)) = Min (insert x (insert a (set xs)))"
  proof (cases "set xs = {}")
    case True
    then show ?thesis by (simp add: min_def)
  next
    case False
    have l: "Min (insert (if a < x then a else x) (set xs))
        = min (if a < x then a else x) (Min (set xs))"
      using False by (intro Min_insert) simp_all
    have "Min (insert a (set xs)) = min a (Min (set xs))"
      using False by (intro Min_insert) simp_all
    moreover have "Min (insert x (insert a (set xs))) = min x (Min (insert a (set xs)))"
      by (intro Min_insert) simp_all
    ultimately have r: "Min (insert x (insert a (set xs))) = min x (min a (Min (set xs)))"
      by simp
    show ?thesis unfolding l r by (simp add: min_def)
  qed
  with Cons show ?case by simp
qed

text \<open>
  Claim C10: when at least one task is registered, the wake target that the loop
  computes is the least of \<open>last_fired + interval\<close> over the periodic tasks and of the
  target times of the one-shot tasks.
\<close>

theorem next_target_is_minimum:
  assumes "INTERVALS st \<noteq> [] \<or> TIMERS st \<noteq> []"
  shows "next_target st =
    Inr (Min ((\<lambda>(f, interval, last_fired). last_fired + interval) ` set (INTERVALS st)
              \<union> snd ` set (TIMERS st)))"
proof -
  let ?xs = "map (\<lambda>(last_called, interval). last_called + interval) (map snd (INTERVALS st))
             @ map snd (TIMERS st)"
  from assms have ne: "?xs \<noteq> []" by auto
  then obtain x rest where xs: "?xs = x # rest" by (cases ?xs) auto
  have "py_min ?xs = Inr (Min (set ?xs))"
    unfolding xs by (simp only: py_min_def fold_min_Min list.case)
  moreover have "set ?xs = (\<lambda>(f, interval, last_fired). last_fired + interval) ` set (INTERVALS st)
              \<union> snd ` set (TIMERS st)"
  proof -
    have "(\<lambda>(f::handler, interval::real, last_fired::real). last_fired + interval)
        = (\<lambda>p. case snd p of (last_called, interval) \<Rightarrow> last_called + interval)"
      by (auto simp: fun_eq_iff)
    then show ?thesis by (simp add: image_image)
  qed
  ultimately show ?thesis by (simp add: next_target_def)
qed

theorem next_target_is_minimum_witness: "next_target three_tasks = Inr (151 / 50)"
  using next_target_is_minimum [of three_tasks] by (simp add: three_tasks_def initial_def)

section \<open>The poll\<close>

lemma Joystick_fold:
  "\<exists>j. fold (\<lambda>name s. Joystick_set name (g s name) s) names st = st\<lparr>joystick := j\<rparr>"
proof (induction names arbitrary: st)
  case Nil
  have "st = st\<lparr>joystick := joystick st\<rparr>" by simp
  then show ?case by (metis fold_simps(1))
next
  case (Cons name names)
  obtain j0 where j0: "Joystick_set name (g st name) st = st\<lparr>joystick := j0\<rparr>"
    by (simp add: Joystick_set_def Let_def)
  from Cons.IH [of "st\<lparr>joystick := j0\<rparr>"] obtain j where
    "fold (\<lambda>name s. Joystick_set name (g s name) s) names (st\<lparr>joystick := j0\<rparr>)
      = st\<lparr>joystick := j0\<rparr>\<lparr>joystick := j\<rparr>" by blast
  with j0 show ?case by auto
qed










lemma Gamepad_call_changed:
  assumes "Gamepad_call e now st = Some (Inr st')"
    and "trace st' \<noteq> trace st \<or> self_pressed st' \<noteq> self_pressed st"
  shows "read_down e st = self_down st"
proof (rule ccontr)
  assume ne: "read_down e st \<noteq> self_down st"
  obtain j where j: "fold (\<lambda>name s. Joystick_set name (analog_value e (clock s) name) s)
      (JOYSTICK e) st = st\<lparr>joystick := j\<rparr>"
    using Joystick_fold [of "\<lambda>s name. analog_value e (clock s) name"] by blast
  have r: "read_down e (st\<lparr>joystick := j\<rparr>) = read_down e st"
    by (simp add: read_down_def)
  from assms(1) ne have "st' = st\<lparr>joystick := j, self_down := read_down e st\<rparr>"
    by (auto simp: Gamepad_call_def j r confirm_def Let_def split: option.splits)
  with assms(2) show False by simp
qed

text \<open>
  Claim C9. A poll whose read differs from the recorded \<^verbatim>\<open>self.down\<close> only records
  the read: no edge is computed and no handler is called. So a poll that changes
  \<^verbatim>\<open>self.pressed\<close> or calls a handler read exactly what the poll before it recorded.
  For consecutive polls: a single read \<open>x\<close> that differs from the recorded one and
  reverts at the next poll leaves the state as it was, whatever polls follow; two
  consecutive reads that differ from each other never dispatch; and a new read \<open>r1\<close>
  seen twice in a row is what reaches edge detection and dispatch.
\<close>

theorem debounce_needs_two_agreeing_polls:
  "(down \<noteq> self_down st \<longrightarrow> confirm e now down st = Some (Inr (st\<lparr>self_down := down\<rparr>)))
   \<and> (Gamepad_call e now st = Some (Inr st')
        \<and> (trace st' \<noteq> trace st \<or> self_pressed st' \<noteq> self_pressed st) \<longrightarrow>
      read_down e st = self_down st)
   \<and> (x \<noteq> self_down s \<longrightarrow>
        polls e ((t1, x) # (t2, self_down s) # rest) s = polls e rest s)
   \<and> (r1 \<noteq> self_down s \<and> r2 \<noteq> r1 \<longrightarrow>
        polls e [(t1, r1), (t2, r2)] s = Some (Inr (s\<lparr>self_down := r2\<rparr>)))
   \<and> (r1 \<noteq> self_down s \<longrightarrow>
        polls e [(t1, r1), (t2, r1)] s =
          (let fresh_down = filter (\<lambda>b. b \<notin> set (self_pressed s)) r1;
               fresh_up = filter (\<lambda>b. b \<notin> set r1) (self_pressed s);
               s1 = s\<lparr>self_down := r1, self_pressed := self_pressed s @ fresh_down\<rparr>
           in case remove_each fresh_up (self_pressed s1) of
                Inl x \<Rightarrow> Some (Inl x)
              | Inr pressed \<Rightarrow>
                  if fresh_down = [] \<and> fresh_up = [] then Some (Inr (s\<lparr>self_down := r1\<rparr>))
                  else dispatch e t2 fresh_down fresh_up 0 (s1\<lparr>self_pressed := pressed\<rparr>)))"
proof -
  have a: "down \<noteq> self_down st \<longrightarrow> confirm e now down st = Some (Inr (st\<lparr>self_down := down\<rparr>))"
    by (simp add: confirm_def)
  have b: "Gamepad_call e now st = Some (Inr st')
        \<and> (trace st' \<noteq> trace st \<or> self_pressed st' \<noteq> self_pressed st) \<longrightarrow>
      read_down e st = self_down st"
    using Gamepad_call_changed by blast
  have c: "x \<noteq> self_down s \<longrightarrow>
        polls e ((t1, x) # (t2, self_down s) # rest) s = polls e rest s"
    by (simp add: confirm_def)
  have d: "r1 \<noteq> self_down s \<and> r2 \<noteq> r1 \<longrightarrow>
        polls e [(t1, r1), (t2, r2)] s = Some (Inr (s\<lparr>self_down := r2\<rparr>))"
    by (simp add: confirm_def)
  have one: "polls e [(t2, r1)] s' = confirm e t2 r1 s'" for s'
    by (simp split: option.splits sum.splits)
  have first: "confirm e t1 r1 s = Some (Inr (s\<lparr>self_down := r1\<rparr>))" if "r1 \<noteq> self_down s"
    using that by (simp add: confirm_def)
  have second: "confirm e t2 r1 (s\<lparr>self_down := r1\<rparr>) =
          (let fresh_down = filter (\<lambda>b. b \<notin> set (self_pressed s)) r1;
               fresh_up = filter (\<lambda>b. b \<notin> set r1) (self_pressed s);
               s1 = s\<lparr>self_down := r1, self_pressed := self_pressed s @ fresh_down\<rparr>
           in case remove_each fresh_up (self_pressed s1) of
                Inl x \<Rightarrow> Some (Inl x)
              | Inr pressed \<Rightarrow>
                  if fresh_down = [] \<and> fresh_up = [] then Some (Inr (s\<lparr>self_down := r1\<rparr>))
                  else dispatch e t2 fresh_down fresh_up 0 (s1\<lparr>self_pressed := pressed\<rparr>))"
  proof (cases "filter (\<lambda>b. b \<notin> set r1) (self_pressed s) = []")
    case True
    then show ?thesis by (simp add: confirm_def Let_def)
  next
    case False
    then show ?thesis by (simp add: confirm_def Let_def split: sum.splits)
  qed
  have f: "r1 \<noteq> self_down s \<longrightarrow>
        polls e [(t1, r1), (t2, r1)] s =
          (let fresh_down = filter (\<lambda>b. b \<notin> set (self_pressed s)) r1;
               fresh_up = filter (\<lambda>b. b \<notin> set r1) (self_pressed s);
               s1 = s\<lparr>self_down := r1, self_pressed := self_pressed s @ fresh_down\<rparr>
           in case remove_each fresh_up (self_pressed s1) of
                Inl x \<Rightarrow> Some (Inl x)
              | Inr pressed \<Rightarrow>
                  if fresh_down = [] \<and> fresh_up = [] then Some (Inr (s\<lparr>self_down := r1\<rparr>))
                  else dispatch e t2 fresh_down fresh_up 0 (s1\<lparr>self_pressed := pressed\<rparr>))"
  proof
    assume ne: "r1 \<noteq> self_down s"
    have "polls e [(t1, r1), (t2, r1)] s = polls e [(t2, r1)] (s\<lparr>self_down := r1\<rparr>)"
      using first [OF ne] by simp
    then show "polls e [(t1, r1), (t2, r1)] s =
          (let fresh_down = filter (\<lambda>b. b \<notin> set (self_pressed s)) r1;
               fresh_up = filter (\<lambda>b. b \<notin> set r1) (self_pressed s);
               s1 = s\<lparr>self_down := r1, self_pressed := self_pressed s @ fresh_down\<rparr>
           in case remove_each fresh_up (self_pressed s1) of
                Inl x \<Rightarrow> Some (Inl x)
              | Inr pressed \<Rightarrow>
                  if fresh_down = [] \<and> fresh_up = [] then Some (Inr (s\<lparr>self_down := r1\<rparr>))
                  else dispatch e t2 fresh_down fresh_up 0 (s1\<lparr>self_pressed := pressed\<rparr>))"
      by (simp only: one second)
  qed
  show ?thesis
    by (intro conjI) (rule a, rule b, rule c, rule d, rule f)
qed

theorem debounce_needs_two_agreeing_polls_witness:
  "confirm a_held 1 [] a_recorded = Some (Inr (a_recorded\<lparr>self_down := []\<rparr>))
   \<and> Gamepad_call a_held 1 a_recorded = Some (Inr a_confirmed)
   \<and> read_down a_held a_recorded = self_down a_recorded
   \<and> polls a_held ((1, [Num 2]) # (2, self_down (gamepad_bound 0)) # [(3, [])]) (gamepad_bound 0)
       = polls a_held [(3, [])] (gamepad_bound 0)
   \<and> polls a_held [(3, [])] (gamepad_bound 0) = Some (Inr (gamepad_bound 0))
   \<and> polls a_held [(1, [Num 2]), (2, [Num 1])] (gamepad_bound 0)
       = Some (Inr ((gamepad_bound 0)\<lparr>self_down := [Num 1]\<rparr>))
   \<and> polls a_held [(1, [Num 2]), (2, [Num 2])] (gamepad_bound 0)
       = Some (Inr ((gamepad_bound 0)\<lparr>self_down := [Num 2], self_pressed := [Num 2],
            trace := [Call (Fn 1) 2, Return (Fn 1) PyNone]\<rparr>))"
proof -
  note defs = gamepad_bound_def a_recorded_def a_confirmed_def initial_def demo_board_def
    a_held_def confirm_def Gamepad_call_def read_down_def GAMEPAD_def dispatch.simps
    call_fn_def DOWN_def UP_def Let_def
  have h1: "[] \<noteq> self_down a_recorded"
    by (simp add: defs)
  have h2: "Gamepad_call a_held 1 a_recorded = Some (Inr a_confirmed)"
    by (simp add: defs)
  have h3: "trace a_confirmed \<noteq> trace a_recorded"
    by (simp add: defs)
  have h4: "[Num 2] \<noteq> self_down (gamepad_bound 0)"
    by (simp add: defs)
  have h5: "[Num 1] \<noteq> [Num (2::int)]"
    by simp
  have e1: "polls a_held [(3, [])] (gamepad_bound 0) = Some (Inr (gamepad_bound 0))"
    by (simp add: defs)
  have e2: "polls a_held [(1, [Num 2]), (2, [Num 2])] (gamepad_bound 0)
       = Some (Inr ((gamepad_bound 0)\<lparr>self_down := [Num 2], self_pressed := [Num 2],
            trace := [Call (Fn 1) 2, Return (Fn 1) PyNone]\<rparr>))"
    by (simp add: defs)
  from h1 h2 h3 h4 h5 e1 e2
    debounce_needs_two_agreeing_polls [where down = "[]" and st = a_recorded
      and e = a_held and now = 1 and st' = a_confirmed and s = "gamepad_bound 0"
      and x = "[Num 2]" and ?t1.0 = 1 and ?t2.0 = 2 and rest = "[(3, [])]"
      and ?r1.0 = "[Num 2]" and ?r2.0 = "[Num 1]"]
  show ?thesis by blast
qed

section \<open>The dispatch pass\<close>

lemma call_fn_keeps:
  "keeps_bindings e \<Longrightarrow> call_fn e k now st = Inr (v, st') \<Longrightarrow> PRESSES st' = PRESSES st"
  unfolding keeps_bindings_def call_fn_def
  by (fastforce split: sum.splits prod.splits)

text \<open>One step of the loop over \<^verbatim>\<open>PRESSES\<close>, at an index inside the list.\<close>

lemma dispatch_step:
  assumes "idx < length (PRESSES st)"
  shows "dispatch e now fd fu idx st =
     (if matches fd fu (PRESSES st ! idx) then
        (case call_fn e (fst (PRESSES st ! idx)) now st of
           Inl x \<Rightarrow> Some (Inl x)
         | Inr (v, st') \<Rightarrow>
             if v \<noteq> PROPOGATE then Some (Inr st') else dispatch e now fd fu (idx + 1) st')
      else dispatch e now fd fu (idx + 1) st)"
  using assms
  by (subst dispatch.simps) (auto simp: matches_def split: prod.splits sum.splits)

lemma dispatch_end:
  "\<not> idx < length (PRESSES st) \<Longrightarrow> dispatch e now fd fu idx st = Some (Inr st)"
  by (subst dispatch.simps) simp

text \<open>With handlers that leave the list alone, the loop by index over the list in the
  state is the pass over the list as it was when the pass began, and it ends.\<close>

lemma dispatch_in_order:
  assumes k: "keeps_bindings e"
  shows "dispatch e now fd fu idx st =
     Some (map_sum id snd (in_order e now fd fu (drop idx (PRESSES st)) st))"
proof (induction "length (PRESSES st) - idx" arbitrary: idx st)
  case 0
  then have "\<not> idx < length (PRESSES st)" by simp
  then show ?case by (simp add: dispatch_end)
next
  case (Suc n)
  then have lt: "idx < length (PRESSES st)" by simp
  then have d: "drop idx (PRESSES st) = PRESSES st ! idx # drop (idx + 1) (PRESSES st)"
    by (simp add: Cons_nth_drop_Suc)
  have ih: "dispatch e now fd fu (idx + 1) st' =
     Some (map_sum id snd (in_order e now fd fu (drop (idx + 1) (PRESSES st)) st'))"
    if "PRESSES st' = PRESSES st" for st'
    using Suc.hyps(1) [of st' "idx + 1"] Suc.hyps(2) that by simp
  show ?case
  proof (cases "matches fd fu (PRESSES st ! idx)")
    case False
    then show ?thesis using lt d ih [of st] by (simp add: dispatch_step)
  next
    case True
    show ?thesis
    proof (cases "call_fn e (fst (PRESSES st ! idx)) now st")
      case (Inl x)
      with True lt d show ?thesis by (simp add: dispatch_step)
    next
      case (Inr r)
      obtain v st' where r: "r = (v, st')" by (cases r)
      with Inr k have "PRESSES st' = PRESSES st" by (auto dest: call_fn_keeps)
      from ih [OF this] True lt d Inr r show ?thesis
        by (auto simp: dispatch_step split: sum.splits)
    qed
  qed
qed

text \<open>Who is called in a pass: the handlers of the first \<open>n\<close> matching bindings, in
  order; all but the last returned the sentinel; and if the pass did not reach every
  matching binding, the last one called returned something else.\<close>

lemma in_order_invoked:
  "in_order e now fd fu ps st = Inr (invoked, st') \<Longrightarrow>
   (\<exists>n. map fst invoked = take n (map fst (filter (matches fd fu) ps)))
   \<and> list_all (\<lambda>p. snd p = PROPOGATE) (butlast invoked)
   \<and> (map fst invoked \<noteq> map fst (filter (matches fd fu) ps) \<longrightarrow>
        invoked \<noteq> [] \<and> snd (last invoked) \<noteq> PROPOGATE)"
proof (induction ps arbitrary: st invoked st')
  case Nil
  then show ?case by simp
next
  case (Cons press rest)
  show ?case
  proof (cases "matches fd fu press")
    case False
    with Cons.prems have "in_order e now fd fu rest st = Inr (invoked, st')" by simp
    from Cons.IH [OF this] False show ?thesis by simp
  next
    case True
    from True Cons.prems obtain v st1 where c: "call_fn e (fst press) now st = Inr (v, st1)"
      by (auto split: sum.splits)
    show ?thesis
    proof (cases "v = PROPOGATE")
      case False
      with True Cons.prems c have "invoked = [(fst press, v)]" by simp
      with True False show ?thesis
        by (auto intro: exI [of _ 1])
    next
      case p: True
      with True Cons.prems c obtain inv where r: "in_order e now fd fu rest st1 = Inr (inv, st')"
        and i: "invoked = (fst press, PROPOGATE) # inv"
        by (auto split: sum.splits)
      from Cons.IH [OF r] obtain n where n: "map fst inv = take n (map fst (filter (matches fd fu) rest))"
        and b: "list_all (\<lambda>p. snd p = PROPOGATE) (butlast inv)"
        and l: "map fst inv \<noteq> map fst (filter (matches fd fu) rest) \<longrightarrow>
            inv \<noteq> [] \<and> snd (last inv) \<noteq> PROPOGATE"
        by blast
      have "map fst invoked = take (Suc n) (map fst (filter (matches fd fu) (press # rest)))"
        using True i n by simp
      moreover have "list_all (\<lambda>p. snd p = PROPOGATE) (butlast invoked)"
        using i b by simp
      moreover have "map fst invoked \<noteq> map fst (filter (matches fd fu) (press # rest)) \<longrightarrow>
          invoked \<noteq> [] \<and> snd (last invoked) \<noteq> PROPOGATE"
        using True i l by auto
      ultimately show ?thesis by blast
    qed
  qed
qed

lemma butlast_one_stop:
  "list_all (\<lambda>p. snd p = PROPOGATE) (butlast invoked) \<Longrightarrow>
   length (filter (\<lambda>p. snd p \<noteq> PROPOGATE) invoked) \<le> 1"
proof (induction invoked)
  case Nil
  then show ?case by simp
next
  case (Cons p ps)
  then show ?case by (cases ps) (auto split: if_splits)
qed

lemma quiet_keeps: "quiet e \<Longrightarrow> keeps_bindings e"
  by (simp add: quiet_def keeps_bindings_def)

lemma call_fn_trace:
  assumes "quiet e" and "call_fn e k now st = Inr (v, st')"
  shows "trace st' = trace st @ [Call (Fn k) now, Return (Fn k) v]"
proof -
  from assms(2) obtain s' where f: "fn e k now (st\<lparr>trace := trace st @ [Call (Fn k) now]\<rparr>) = Inr (v, s')"
    and st': "st' = s'\<lparr>trace := trace s' @ [Return (Fn k) v]\<rparr>"
    by (auto simp: call_fn_def split: sum.splits)
  from assms(1) f have "trace s' = trace st @ [Call (Fn k) now]"
    unfolding quiet_def by fastforce
  with st' show ?thesis by simp
qed

lemma in_order_trace:
  "quiet e \<Longrightarrow> in_order e now fd fu ps st = Inr (invoked, st') \<Longrightarrow>
   trace st' = trace st @ calls_of now invoked"
proof (induction ps arbitrary: st invoked st')
  case Nil
  then show ?case by (simp add: calls_of_def)
next
  case (Cons press rest)
  show ?case
  proof (cases "matches fd fu press")
    case False
    with Cons show ?thesis by simp
  next
    case True
    from True Cons.prems obtain v st1 where c: "call_fn e (fst press) now st = Inr (v, st1)"
      by (auto split: sum.splits)
    from Cons.prems(1) c have t: "trace st1 = trace st @ [Call (Fn (fst press)) now, Return (Fn (fst press)) v]"
      by (rule call_fn_trace)
    show ?thesis
    proof (cases "v = PROPOGATE")
      case False
      with True Cons.prems c have "invoked = [(fst press, v)]" and "st' = st1" by simp_all
      with t show ?thesis by (simp add: calls_of_def)
    next
      case p: True
      with True Cons.prems c obtain inv where r: "in_order e now fd fu rest st1 = Inr (inv, st')"
        and i: "invoked = (fst press, v) # inv"
        by (auto split: sum.splits)
      from Cons.IH [OF Cons.prems(1) r] t i show ?thesis by (simp add: calls_of_def)
    qed
  qed
qed

text \<open>
  Claim C8 fails as stated: the loop reads \<^verbatim>\<open>PRESSES\<close> by index from the list
  itself, and \<^verbatim>\<open>cancel\<close> pops from that list. Three bindings match; the first
  handler cancels its own binding and returns the sentinel. The list moves up under the
  loop's index: the second binding is never evaluated and the third handler is called.
\<close>

theorem dispatch_skips_binding_counterexample:
  "dispatch self_cancel 7 [Num 2] [] 0 three_bindings =
     Some (Inr (three_bindings\<lparr>PRESSES := [(1, [Num 2], DOWN), (2, [Num 2], DOWN)],
        trace := [Call (Fn 0) 7, Return (Fn 0) PROPOGATE,
          Call (Fn 2) 7, Return (Fn 2) PyNone]\<rparr>))
   \<and> map fst (filter (matches [Num 2] []) (PRESSES three_bindings)) = [0, 1, 2]"
  by (simp add: dispatch.simps three_bindings_def initial_def self_cancel_def
      demo_board_def call_fn_def cancel_def cancel1_def matches_def DOWN_def UP_def)

text \<open>
  Claim C8, as amended: in a dispatch pass whose handlers do not change the list of
  bindings, the pass ends and is the pass over the bindings in registration order. The
  handlers it calls are those of the first \<open>n\<close> matching bindings in that order, so a
  binding that does not match never ends the pass; every handler called before the
  last one returned the sentinel, so a handler that returns the sentinel lets the later
  bindings be evaluated; at most one handler returned anything else; and when a
  matching binding was not reached, the last handler called returned something else
  than the sentinel. (When the handlers write nothing on the trace themselves, the
  trace shows exactly these calls.)
\<close>

theorem dispatch_in_registration_order:
  assumes "keeps_bindings e"
  shows "\<exists>result. dispatch e now fresh_down fresh_up 0 st = Some result
    \<and> result = map_sum id snd (in_order e now fresh_down fresh_up (PRESSES st) st)
    \<and> (\<forall>invoked st'.
         in_order e now fresh_down fresh_up (PRESSES st) st = Inr (invoked, st') \<longrightarrow>
           (\<exists>n. map fst invoked =
              take n (map fst (filter (matches fresh_down fresh_up) (PRESSES st))))
           \<and> list_all (\<lambda>p. snd p = PROPOGATE) (butlast invoked)
           \<and> length (filter (\<lambda>p. snd p \<noteq> PROPOGATE) invoked) \<le> 1
           \<and> (map fst invoked \<noteq> map fst (filter (matches fresh_down fresh_up) (PRESSES st))
                \<longrightarrow> invoked \<noteq> [] \<and> snd (last invoked) \<noteq> PROPOGATE)
           \<and> (quiet e \<longrightarrow> trace st' = trace st @ calls_of now invoked))"
proof -
  let ?r = "in_order e now fresh_down fresh_up (PRESSES st) st"
  have d: "dispatch e now fresh_down fresh_up 0 st = Some (map_sum id snd ?r)"
    using dispatch_in_order [OF assms, of now fresh_down fresh_up 0 st] by simp
  have p: "(\<exists>n. map fst invoked =
              take n (map fst (filter (matches fresh_down fresh_up) (PRESSES st))))
           \<and> list_all (\<lambda>p. snd p = PROPOGATE) (butlast invoked)
           \<and> length (filter (\<lambda>p. snd p \<noteq> PROPOGATE) invoked) \<le> 1
           \<and> (map fst invoked \<noteq> map fst (filter (matches fresh_down fresh_up) (PRESSES st))
                \<longrightarrow> invoked \<noteq> [] \<and> snd (last invoked) \<noteq> PROPOGATE)
           \<and> (quiet e \<longrightarrow> trace st' = trace st @ calls_of now invoked)"
    if r: "?r = Inr (invoked, st')" for invoked st'
  proof -
    have t: "quiet e \<longrightarrow> trace st' = trace st @ calls_of now invoked"
      using in_order_trace [OF _ r] by blast
    from t in_order_invoked [OF r] butlast_one_stop [of invoked]
    show ?thesis by blast
  qed
  from d p show ?thesis by blast
qed

text \<open>Three bindings on the same button: the first handler returns the sentinel, the
  second returns \<^verbatim>\<open>None\<close>; the third is not called.\<close>

theorem dispatch_in_registration_order_witness:
  "keeps_bindings first_propagates
   \<and> quiet first_propagates
   \<and> dispatch first_propagates 7 [Num 2] [] 0 three_bindings =
       Some (Inr (three_bindings\<lparr>trace := [Call (Fn 0) 7, Return (Fn 0) PROPOGATE,
          Call (Fn 1) 7, Return (Fn 1) PyNone]\<rparr>))
   \<and> in_order first_propagates 7 [Num 2] [] (PRESSES three_bindings) three_bindings =
       Inr ([(0, PROPOGATE), (1, PyNone)],
         three_bindings\<lparr>trace := [Call (Fn 0) 7, Return (Fn 0) PROPOGATE,
          Call (Fn 1) 7, Return (Fn 1) PyNone]\<rparr>)
   \<and> map fst (filter (matches [Num 2] []) (PRESSES three_bindings)) = [0, 1, 2]
   \<and> (\<exists>result. dispatch first_propagates 7 [Num 2] [] 0 three_bindings = Some result
    \<and> result = map_sum id snd
        (in_order first_propagates 7 [Num 2] [] (PRESSES three_bindings) three_bindings)
    \<and> (\<forall>invoked st'.
         in_order first_propagates 7 [Num 2] [] (PRESSES three_bindings) three_bindings
           = Inr (invoked, st') \<longrightarrow>
           (\<exists>n. map fst invoked =
              take n (map fst (filter (matches [Num 2] []) (PRESSES three_bindings))))
           \<and> list_all (\<lambda>p. snd p = PROPOGATE) (butlast invoked)
           \<and> length (filter (\<lambda>p. snd p \<noteq> PROPOGATE) invoked) \<le> 1
           \<and> (map fst invoked \<noteq> map fst (filter (matches [Num 2] []) (PRESSES three_bindings))
                \<longrightarrow> invoked \<noteq> [] \<and> snd (last invoked) \<noteq> PROPOGATE)
           \<and> (quiet first_propagates \<longrightarrow>
                trace st' = trace three_bindings @ calls_of 7 invoked)))"
proof -
  have q: "quiet first_propagates"
    by (auto simp: quiet_def first_propagates_def demo_board_def split: if_splits)
  have k: "keeps_bindings first_propagates"
    using q by (rule quiet_keeps)
  have d: "dispatch first_propagates 7 [Num 2] [] 0 three_bindings =
       Some (Inr (three_bindings\<lparr>trace := [Call (Fn 0) 7, Return (Fn 0) PROPOGATE,
          Call (Fn 1) 7, Return (Fn 1) PyNone]\<rparr>))"
    by (simp add: dispatch.simps three_bindings_def initial_def first_propagates_def
        demo_board_def call_fn_def DOWN_def UP_def)
  have i: "in_order first_propagates 7 [Num 2] [] (PRESSES three_bindings) three_bindings =
       Inr ([(0, PROPOGATE), (1, PyNone)],
         three_bindings\<lparr>trace := [Call (Fn 0) 7, Return (Fn 0) PROPOGATE,
          Call (Fn 1) 7, Return (Fn 1) PyNone]\<rparr>)"
    by (simp add: three_bindings_def initial_def first_propagates_def
        demo_board_def call_fn_def matches_def DOWN_def UP_def)
  have m: "map fst (filter (matches [Num 2] []) (PRESSES three_bindings)) = [0, 1, 2]"
    by (simp add: three_bindings_def initial_def matches_def DOWN_def UP_def)
  from q k d i m dispatch_in_registration_order [OF k, of 7 "[Num 2]" "[]" three_bindings]
  show ?thesis by blast
qed

section \<open>The event loop\<close>

text \<open>
  Claim C1, evaluated. A gamepad button is bound (so that polls succeed), user function
  0 is registered every 0.01 s and calls \<^verbatim>\<open>stop()\<close>; the clock reads 1. In the first
  round the function sets \<^verbatim>\<open>RUNNING\<close> to \<^verbatim>\<open>False\<close>. Nothing in \<^verbatim>\<open>start\<close> reads
  \<^verbatim>\<open>RUNNING\<close>: the loop sleeps until the next wake time, runs a second round that
  calls the function again, sleeps again, and is still running.
\<close>

theorem stop_does_not_end_the_loop:
  "on stops [Num 2] 1 DOWN (initial 1) = Inr (gamepad_bound 1)
   \<and> start 2 stops None (every (1 / 100) (Fn 0) (gamepad_bound 1)) =
       Running ((gamepad_bound 1)\<lparr>RUNNING := False,
         INTERVALS := [(Fn 0, 1 / 100, 101 / 100), (Gamepad_instance, 1 / 50, 1)],
         clock := 51 / 50,
         trace := [Call (Fn 0) 1, Return (Fn 0) PyNone,
           Call Gamepad_instance 1, Return Gamepad_instance PyNone, Sleep (1 / 100),
           Call (Fn 0) (101 / 100), Return (Fn 0) PyNone, Sleep (1 / 100)]\<rparr>)"
  by code_simp

subsection \<open>The loop never returns\<close>

lemma sleep_until_closed:
  "sleep_until t st = (if t - clock st > 0 then sleep (t - clock st) st else st)"
proof (cases "t - clock st > 0")
  case True
  have "sleep_until t (sleep (t - clock st) st) = sleep (t - clock st) st"
    by (subst sleep_until.simps) (simp add: sleep_def)
  with True show ?thesis by (subst sleep_until.simps) (simp add: Let_def)
next
  case False
  then show ?thesis by (subst sleep_until.simps) (simp add: Let_def)
qed

lemma next_target_nonempty:
  "next_target st = Inr t \<Longrightarrow> INTERVALS st \<noteq> [] \<or> TIMERS st \<noteq> []"
  by (auto simp: next_target_def py_min_def)

text \<open>A round that goes on has computed its wake target, by \<^verbatim>\<open>min\<close> over a list
  that was not empty.\<close>

lemma iteration_next_round:
  assumes "iteration e st = Some (Inr (Next_round st'))"
  shows "INTERVALS st' \<noteq> [] \<or> TIMERS st' \<noteq> []"
proof -
  from assms obtain st2 t where n: "next_target st2 = Inr t" and s: "st' = sleep_until t st2"
    by (auto simp: iteration_def Let_def split: if_splits option.splits sum.splits)
  from n have "INTERVALS st2 \<noteq> [] \<or> TIMERS st2 \<noteq> []" by (rule next_target_nonempty)
  with s show ?thesis by (simp add: sleep_until_closed sleep_def)
qed

lemma iteration_no_return:
  assumes "INTERVALS st \<noteq> [] \<or> TIMERS st \<noteq> []"
  shows "iteration e st \<noteq> Some (Inr (Return_from_start st'))"
  using assms by (auto simp: iteration_def Let_def split: option.splits sum.splits)

lemma loop_never_returns:
  "INTERVALS st \<noteq> [] \<or> TIMERS st \<noteq> [] \<Longrightarrow> loop n e st \<noteq> Returned st'"
proof (induction n arbitrary: st)
  case 0
  then show ?case by simp
next
  case (Suc n)
  show ?case
  proof (cases "iteration e st")
    case None
    then show ?thesis by simp
  next
    case (Some r)
    show ?thesis
    proof (cases r)
      case (Inl x)
      with Some show ?thesis by simp
    next
      case (Inr rd)
      show ?thesis
      proof (cases rd)
        case (Return_from_start s)
        with Some Inr Suc.prems iteration_no_return [of st e s] show ?thesis by simp
      next
        case (Next_round s)
        with Some Inr have "INTERVALS s \<noteq> [] \<or> TIMERS s \<noteq> []"
          using iteration_next_round by simp
        from Suc.IH [OF this] Some Inr Next_round show ?thesis by simp
      qed
    qed
  qed
qed

text \<open>The loop never returns: the poll is registered before the loop begins, and a
  round that goes on leaves a task registered. So the branch that prints
  \<^verbatim>\<open>No functions registered, quitting\<close> and returns is never taken.\<close>

lemma start_never_returns:
  "start n e f st \<noteq> Returned st'"
proof -
  have "INTERVALS (every (2 / 100) Gamepad_instance (Gamepad_init e st)) \<noteq> []"
    by (cases "INTERVALS (Gamepad_init e st)") (simp_all add: every_def)
  then have "INTERVALS (case f of None \<Rightarrow> every (2 / 100) Gamepad_instance (Gamepad_init e st)
      | Some g \<Rightarrow> at_timer 0 g (every (2 / 100) Gamepad_instance (Gamepad_init e st))) \<noteq> []"
    by (cases f) (simp_all add: at_timer_def)
  then show ?thesis
    unfolding start_def Let_def by (intro loop_never_returns) simp
qed

text \<open>
  Claim C3, evaluated. \<^verbatim>\<open>start()\<close> is called with no periodic task, no timer and no
  initial function; the clock reads 1. The function registers the poll before its loop
  begins, so the test for empty \<^verbatim>\<open>TIMERS\<close> and \<^verbatim>\<open>INTERVALS\<close> at the top of the loop
  fails and \<^verbatim>\<open>start\<close> does not return. With nothing registered at all, the first
  round calls the poll, which raises. With only a gamepad binding registered, the
  first round polls and then sleeps for 0.02 s, and the loop goes on.
\<close>

theorem start_with_no_task_does_not_return:
  "start 1 demo_board None (initial 1) = Raised AttributeError
   \<and> start 1 demo_board None (gamepad_bound 1) =
       Running ((gamepad_bound 1)\<lparr>INTERVALS := [(Gamepad_instance, 1 / 50, 1)],
         clock := 51 / 50,
         trace := [Call Gamepad_instance 1, Return Gamepad_instance PyNone,
           Sleep (1 / 50)]\<rparr>)"
  by code_simp

subsection \<open>The fire pass\<close>

lemma call_fn_intervals:
  "keeps_intervals e \<Longrightarrow> call_fn e k now st = Inr (v, st') \<Longrightarrow> INTERVALS st' = INTERVALS st"
  unfolding keeps_intervals_def call_fn_def
  by (fastforce split: sum.splits prod.splits)

text \<open>Whenever the loop over \<^verbatim>\<open>PRESSES\<close> ends, the periodic registry is as before.\<close>

lemma dispatch_intervals:
  assumes "dispatch e now fd fu idx st = Some r"
  shows "keeps_intervals e \<longrightarrow> (\<forall>st'. r = Inr st' \<longrightarrow> INTERVALS st' = INTERVALS st)"
proof (rule dispatch.raw_induct [where P = "\<lambda>e now fd fu idx st r.
    keeps_intervals e \<longrightarrow> (\<forall>st'. r = Inr st' \<longrightarrow> INTERVALS st' = INTERVALS st)",
    OF _ assms], goal_cases)
  case (1 disp e now fd fu idx st r)
  show ?case
  proof (intro impI allI)
    fix st'
    assume k: "keeps_intervals e" and r: "r = Inr st'"
    show "INTERVALS st' = INTERVALS st"
    proof (cases "idx < length (PRESSES st)")
      case False
      with 1(2) r show ?thesis by simp
    next
      case True
      obtain f buttons action where p: "PRESSES st ! idx = (f, buttons, action)"
        by (cases "PRESSES st ! idx")
      define c where "c = (if action = DOWN \<and> list_all (\<lambda>b. b \<in> set fd) buttons
                  then call_fn e f now st
                  else if action = UP \<and> list_all (\<lambda>b. b \<in> set fu) buttons
                       then call_fn e f now st else Inr (PROPOGATE, st))"
      from 1(2) True p have eq: "(case c of Inl x \<Rightarrow> Some (Inl x)
             | Inr (v, st1) \<Rightarrow> if v \<noteq> PROPOGATE then Some (Inr st1)
                 else disp e now fd fu (idx + 1) st1) = Some r"
        by (simp add: c_def)
      then obtain v st1 where c: "c = Inr (v, st1)"
        using r by (cases c) auto
      have i1: "INTERVALS st1 = INTERVALS st"
        using c k unfolding c_def by (auto split: if_splits dest: call_fn_intervals)
      show ?thesis
      proof (cases "v = PROPOGATE")
        case False
        with eq c r i1 show ?thesis by simp
      next
        case True
        with eq c have "disp e now fd fu (idx + 1) st1 = Some r" by simp
        from 1(1) [OF this]
        have "keeps_intervals e \<longrightarrow> (\<forall>st'. r = Inr st' \<longrightarrow> INTERVALS st' = INTERVALS st1)" .
        with k r i1 show ?thesis by simp
      qed
    qed
  qed
qed

lemma dispatch_keeps_intervals:
  "keeps_intervals e \<Longrightarrow> dispatch e now fd fu idx st = Some (Inr st') \<Longrightarrow>
   INTERVALS st' = INTERVALS st"
  using dispatch_intervals by blast

lemma confirm_intervals:
  assumes "keeps_intervals e" and "confirm e now down st = Some (Inr st')"
  shows "INTERVALS st' = INTERVALS st"
  using assms
  by (auto simp: confirm_def Let_def split: sum.splits if_splits
      dest: dispatch_keeps_intervals)

lemma Gamepad_call_intervals:
  assumes "keeps_intervals e" and "Gamepad_call e now st = Some (Inr st')"
  shows "INTERVALS st' = INTERVALS st"
proof -
  obtain j where j: "fold (\<lambda>name s. Joystick_set name (analog_value e (clock s) name) s)
      (JOYSTICK e) st = st\<lparr>joystick := j\<rparr>"
    using Joystick_fold [of "\<lambda>s name. analog_value e (clock s) name"] by blast
  from assms(2) have "confirm e now (read_down e (st\<lparr>joystick := j\<rparr>)) (st\<lparr>joystick := j\<rparr>)
      = Some (Inr st')"
    by (auto simp: Gamepad_call_def j Let_def split: option.splits)
  from confirm_intervals [OF assms(1) this] show ?thesis by simp
qed

lemma invoke_intervals:
  assumes "keeps_intervals e" and "invoke e h now st = Some (Inr st')"
  shows "INTERVALS st' = INTERVALS st"
proof (cases h)
  case Gamepad_instance
  with assms(2) obtain s1 where
    "Gamepad_call e now (st\<lparr>trace := trace st @ [Call Gamepad_instance now]\<rparr>) = Some (Inr s1)"
    and "st' = s1\<lparr>trace := trace s1 @ [Return Gamepad_instance PyNone]\<rparr>"
    by (auto simp: invoke_def split: option.splits sum.splits)
  with Gamepad_call_intervals [OF assms(1)] show ?thesis by fastforce
next
  case (Fn k)
  with assms show ?thesis
    by (auto simp: invoke_def split: sum.splits dest: call_fn_intervals)
qed

text \<open>With distinct keys, \<^verbatim>\<open>d[k] = v\<close> for the key at position \<open>pos\<close> writes there.\<close>

lemma update_at_position:
  "distinct (map fst xs) \<Longrightarrow> pos < length xs \<Longrightarrow> fst (xs ! pos) = k \<Longrightarrow>
   AList.update k v xs = xs[pos := (k, v)]"
proof (induction xs arbitrary: pos)
  case Nil
  then show ?case by simp
next
  case (Cons x xs)
  show ?case
  proof (cases pos)
    case 0
    with Cons.prems show ?thesis by simp
  next
    case (Suc n)
    with Cons.prems have "fst x \<noteq> k" by (auto simp: image_iff)
    with Cons Suc show ?thesis by simp
  qed
qed

lemma live_is_snapshot:
  assumes k: "keeps_intervals e"
  shows "distinct (map fst (INTERVALS st)) \<Longrightarrow>
     for_items INTERVALS (fire_interval e now) (length (INTERVALS st)) pos st =
       fire_snapshot e now (drop pos (INTERVALS st)) st"
proof (induction "length (INTERVALS st) - pos" arbitrary: pos st)
  case 0
  then show ?case by (simp add: for_items.simps)
next
  case (Suc n)
  then have lt: "pos < length (INTERVALS st)" by simp
  obtain f interval last_called where item: "INTERVALS st ! pos = (f, interval, last_called)"
    by (cases "INTERVALS st ! pos")
  from lt have d: "drop pos (INTERVALS st) = INTERVALS st ! pos # drop (Suc pos) (INTERVALS st)"
    by (simp add: Cons_nth_drop_Suc)
  show ?case
  proof (cases "last_called + interval \<le> now")
    case False
    have "for_items INTERVALS (fire_interval e now) (length (INTERVALS st)) pos st =
        for_items INTERVALS (fire_interval e now) (length (INTERVALS st)) (pos + 1) st"
      using lt item False by (subst for_items.simps) (simp add: fire_interval_def)
    also have "\<dots> = fire_snapshot e now (drop (pos + 1) (INTERVALS st)) st"
      using Suc.hyps(1) [of st "pos + 1"] Suc.hyps(2) Suc.prems by simp
    finally show ?thesis using d item False by simp
  next
    case True
    show ?thesis
    proof (cases "invoke e f now st")
      case None
      then show ?thesis using lt item True d
        by (subst for_items.simps) (simp add: fire_interval_def)
    next
      case (Some r)
      show ?thesis
      proof (cases r)
        case (Inl x)
        with Some show ?thesis using lt item True d
          by (subst for_items.simps) (simp add: fire_interval_def)
      next
        case (Inr st')
        with Some k have i: "INTERVALS st' = INTERVALS st" by (auto dest: invoke_intervals)
        define st'' where
          "st'' = st'\<lparr>INTERVALS := AList.update f (interval, now) (INTERVALS st')\<rparr>"
        have u: "INTERVALS st'' = (INTERVALS st)[pos := (f, interval, now)]"
          using update_at_position [OF Suc.prems lt, of f "(interval, now)"] item i
          by (simp add: st''_def)
        then have len: "length (INTERVALS st'') = length (INTERVALS st)"
          and dr: "drop (pos + 1) (INTERVALS st'') = drop (pos + 1) (INTERVALS st)"
          by simp_all
        have "map fst (INTERVALS st'') = (map fst (INTERVALS st))[pos := f]"
          using u by (simp add: map_update)
        also have "\<dots> = map fst (INTERVALS st)"
          using item lt by (intro list_update_same_conv [THEN iffD2]) simp_all
        finally have dist: "distinct (map fst (INTERVALS st''))" using Suc.prems by simp
        have "for_items INTERVALS (fire_interval e now) (length (INTERVALS st)) pos st =
            for_items INTERVALS (fire_interval e now) (length (INTERVALS st)) (pos + 1) st''"
          using lt item True Some Inr
          by (subst for_items.simps) (simp add: fire_interval_def st''_def)
        also have "\<dots> = fire_snapshot e now (drop (pos + 1) (INTERVALS st)) st''"
          using Suc.hyps(1) [of st'' "pos + 1"] Suc.hyps(2) dist len dr by simp
        finally show ?thesis using d item True Some Inr by (simp add: st''_def)
      qed
    qed
  qed
qed

text \<open>A pass over the timers in which none is due calls nothing and changes nothing.\<close>

lemma timers_not_due:
  "list_all (\<lambda>(f, target). now < target) (TIMERS st) \<Longrightarrow>
   for_items TIMERS (fire_timer e now) (length (TIMERS st)) pos st = Some (Inr st)"
proof (induction "length (TIMERS st) - pos" arbitrary: pos)
  case 0
  then show ?case by (simp add: for_items.simps)
next
  case (Suc n)
  then have lt: "pos < length (TIMERS st)" by simp
  with Suc.prems have "case TIMERS st ! pos of (f, target) \<Rightarrow> now < target"
    by (simp add: list_all_length)
  then have "fire_timer e now (TIMERS st ! pos) st = Some (Inr st)"
    by (auto simp: fire_timer_def split: prod.splits)
  then have "for_items TIMERS (fire_timer e now) (length (TIMERS st)) pos st =
      for_items TIMERS (fire_timer e now) (length (TIMERS st)) (pos + 1) st"
    using lt by (subst for_items.simps) simp
  also have "\<dots> = Some (Inr st)"
    using Suc.hyps(1) [of "pos + 1"] Suc.hyps(2) Suc.prems by simp
  finally show ?case .
qed

text \<open>
  Claim C2 fails as stated: the loops of the fire pass walk \<^verbatim>\<open>INTERVALS.items()\<close>
  and \<^verbatim>\<open>TIMERS.items()\<close> themselves, not a copy. A periodic handler that registers
  one more periodic task changes the size of \<^verbatim>\<open>INTERVALS\<close> under the loop, whose next
  step raises \<^verbatim>\<open>RuntimeError\<close>. A periodic handler that cancels a task not yet
  reached and registers a new one leaves the size as it was: the pass goes on and
  calls the new task, registered during this pass, within the same pass.
\<close>

theorem fire_pass_snapshot_counterexample:
  "start 1 registers None (tick (Fn 0) (initial 1)) = Raised RuntimeError
   \<and> start 1 swaps None (every 5 (Fn 3) (tick (Fn 0) (gamepad_bound 1))) =
       Running ((gamepad_bound 1)\<lparr>
         INTERVALS := [(Fn 0, 0, 1), (Gamepad_instance, 1 / 50, 1), (Fn 2, 1, 1)],
         trace := [Call (Fn 0) 1, Return (Fn 0) PyNone,
           Call Gamepad_instance 1, Return Gamepad_instance PyNone,
           Call (Fn 2) 1, Return (Fn 2) PyNone]\<rparr>)"
  by code_simp

text \<open>
  Claim C2, as amended: the fire pass reads the live registries. For handlers that
  neither register nor cancel a periodic task, its loop over the periodic tasks is the
  pass over the list of tasks as it was when the pass began: in registration order, each
  task that is due by that list is called with \<open>now\<close> and re-anchored to \<open>now\<close>, and
  the loop adds no fault of its own. And when no one-shot timer is due, its loop over
  the timers calls nothing and changes nothing.
\<close>

theorem fire_pass_reads_live_registry:
  assumes "keeps_intervals e" and "distinct (map fst (INTERVALS st))"
  shows "for_items INTERVALS (fire_interval e now) (length (INTERVALS st)) 0 st =
      fire_snapshot e now (INTERVALS st) st
    \<and> (list_all (\<lambda>(f, target). now < target) (TIMERS st) \<longrightarrow>
        for_items TIMERS (fire_timer e now) (length (TIMERS st)) 0 st = Some (Inr st))"
  using live_is_snapshot [OF assms, of now 0] timers_not_due [of now st e 0] by simp

theorem fire_pass_reads_live_registry_witness:
  "keeps_intervals demo_board
   \<and> for_items INTERVALS (fire_interval demo_board 1) (length (INTERVALS three_periodic)) 0
       three_periodic = fire_snapshot demo_board 1 (INTERVALS three_periodic) three_periodic
   \<and> fire_snapshot demo_board 1 (INTERVALS three_periodic) three_periodic =
       Some (Inr (three_periodic\<lparr>
         INTERVALS := [(Fn 0, 0, 1), (Gamepad_instance, 2 / 100, 1), (Fn 1, 5, 0)],
         trace := [Call (Fn 0) 1, Return (Fn 0) PyNone,
           Call Gamepad_instance 1, Return Gamepad_instance PyNone]\<rparr>))
   \<and> for_items TIMERS (fire_timer demo_board 1) (length (TIMERS three_periodic)) 0
       three_periodic = Some (Inr three_periodic)"
proof -
  have k: "keeps_intervals demo_board"
    by (simp add: keeps_intervals_def demo_board_def)
  have d: "distinct (map fst (INTERVALS three_periodic))"
    by (simp add: three_periodic_def)
  have t: "list_all (\<lambda>(f, target). 1 < target) (TIMERS three_periodic)"
    by (simp add: three_periodic_def)
  have e: "fire_snapshot demo_board 1 (INTERVALS three_periodic) three_periodic =
       Some (Inr (three_periodic\<lparr>
         INTERVALS := [(Fn 0, 0, 1), (Gamepad_instance, 2 / 100, 1), (Fn 1, 5, 0)],
         trace := [Call (Fn 0) 1, Return (Fn 0) PyNone,
           Call Gamepad_instance 1, Return Gamepad_instance PyNone]\<rparr>))"
    by code_simp
  from k e t fire_pass_reads_live_registry [OF k d, of 1] show ?thesis by blast
qed

text \<open>The loop over the timers deletes a due timer from the dict it walks before it
  calls the handler. When the handler registers no timer, the size has changed and the
  next step of the loop raises.\<close>

lemma due_timer_faults_the_fire_pass:
  "start 1 demo_board (Some (Fn 0)) (gamepad_bound 1) = Raised RuntimeError"
  by code_simp

end
